theory Spec2Isabelle
  imports Main
begin

section \<open>The WKT decoder of package wkt (encoding/wkt/decode.go)\<close>

text \<open>
  A Go string is a sequence of bytes, modelled as \<^typ>\<open>string\<close> (a list of 8-bit
  characters). Indices are byte indices. Every function of decode.go that returns an
  \<^verbatim>\<open>error\<close> returns a sum here, \<open>Inl\<close> carrying the error. When a Go function
  returns a non-nil error its other results are never read by a caller in decode.go, so
  the model returns the error alone.
\<close>

subsection \<open>Errors and panics\<close>

text \<open>
  The errors are built with \<^verbatim>\<open>errors.New\<close> from a message; each constructor stands for
  one message format and carries the values formatted into it:
  \<^item> \<open>UnknownType wkt\<close>: "Unknown geometry type in WKT: " + wkt;
  \<^item> \<open>UnsupportedType t\<close>: "Cannot create geometry for unsupported type %s";
  \<^item> \<open>MalformedBraces s\<close>: "Malformatted braces in WKT string: %s";
  \<^item> \<open>DimensionMismatch n s\<close>: "Expected coordinates with dimension %v. Found: %v";
  \<^item> \<open>InvalidOrdinate val\<close>: "Found invalid coordinate value in WKT String: %v".

  A run-time panic (a slice or index out of range, a \<^verbatim>\<open>Must...\<close> method whose
  operation failed) is the value \<open>Panic\<close>: it is not an error the Go function returns.
\<close>

datatype panic = SliceBounds | IndexOutOfRange | StrideMismatch nat nat

datatype error =
    UnknownType string
  | UnsupportedType string
  | MalformedBraces string
  | DimensionMismatch nat string
  | InvalidOrdinate string
  | Panic panic

subsection \<open>Package strings\<close>

definition HasPrefix :: "string \<Rightarrow> string \<Rightarrow> bool" where
  \<comment> \<open>\<^verbatim>\<open>len(s) >= len(prefix) && s[:len(prefix)] == prefix\<close>\<close>
  "HasPrefix s p = (length p \<le> length s \<and> take (length p) s = p)"

definition HasSuffix :: "string \<Rightarrow> string \<Rightarrow> bool" where
  \<comment> \<open>\<^verbatim>\<open>len(s) >= len(suffix) && s[len(s)-len(suffix):] == suffix\<close>\<close>
  "HasSuffix s p = (length p \<le> length s \<and> drop (length s - length p) s = p)"

definition Index :: "string \<Rightarrow> char \<Rightarrow> int" where
  \<comment> \<open>\<^verbatim>\<open>strings.Index(s, sep)\<close> for a one-byte separator: the index of its first
      occurrence, or -1.\<close>
  "Index s c = (if c \<in> set s then int (length (takeWhile (\<lambda>x. x \<noteq> c) s)) else - 1)"

fun Split :: "string \<Rightarrow> char \<Rightarrow> string list" where
  \<comment> \<open>\<^verbatim>\<open>strings.Split(s, sep)\<close> for a one-byte separator: the pieces between the
      separators, one more than there are separators (so \<^verbatim>\<open>Split("", ",")\<close> is one
      empty string).\<close>
  "Split [] sep = [[]]"
| "Split (c # cs) sep =
     (if c = sep then [] # Split cs sep
      else (case Split cs sep of [] \<Rightarrow> [[c]] | x # xs \<Rightarrow> (c # x) # xs))"

definition slice :: "string \<Rightarrow> nat \<Rightarrow> nat \<Rightarrow> error + string" where
  \<comment> \<open>The slice expression \<^verbatim>\<open>s[a:b]\<close>, which panics unless \<open>a \<le> b \<le> len(s)\<close>.\<close>
  "slice s a b =
     (if a \<le> b \<and> b \<le> length s then Inr (take (b - a) (drop a s))
      else Inl (Panic SliceBounds))"

text \<open>
  \<^verbatim>\<open>strings.TrimSpace\<close> removes the leading and the trailing runes that
  \<^verbatim>\<open>unicode.IsSpace\<close> accepts: U+0009 to U+000D, U+0020, U+0085, U+00A0, U+1680,
  U+2000 to U+200A, U+2028, U+2029, U+202F, U+205F and U+3000. The UTF-8 decoder of Go
  accepts shortest encodings only, and every encoding starts with a byte that is no
  continuation byte, so a string starts (ends) with a space rune exactly when it starts
  (ends) with one of the byte sequences of \<open>spaceRunes\<close>.
\<close>

definition spaceRunes :: "string list" where
  "spaceRunes =
     [[CHR 0x09], [CHR 0x0A], [CHR 0x0B], [CHR 0x0C], [CHR 0x0D], [CHR 0x20],
      [CHR 0xC2, CHR 0x85], [CHR 0xC2, CHR 0xA0], [CHR 0xE1, CHR 0x9A, CHR 0x80],
      [CHR 0xE2, CHR 0x80, CHR 0x80], [CHR 0xE2, CHR 0x80, CHR 0x81],
      [CHR 0xE2, CHR 0x80, CHR 0x82], [CHR 0xE2, CHR 0x80, CHR 0x83],
      [CHR 0xE2, CHR 0x80, CHR 0x84], [CHR 0xE2, CHR 0x80, CHR 0x85],
      [CHR 0xE2, CHR 0x80, CHR 0x86], [CHR 0xE2, CHR 0x80, CHR 0x87],
      [CHR 0xE2, CHR 0x80, CHR 0x88], [CHR 0xE2, CHR 0x80, CHR 0x89],
      [CHR 0xE2, CHR 0x80, CHR 0x8A], [CHR 0xE2, CHR 0x80, CHR 0xA8],
      [CHR 0xE2, CHR 0x80, CHR 0xA9], [CHR 0xE2, CHR 0x80, CHR 0xAF],
      [CHR 0xE2, CHR 0x81, CHR 0x9F], [CHR 0xE3, CHR 0x80, CHR 0x80]]"

definition spacePrefix :: "string \<Rightarrow> nat" where
  \<comment> \<open>The width of the space rune \<open>s\<close> starts with, 0 when it starts with none.\<close>
  "spacePrefix s = (case find (HasPrefix s) spaceRunes of None \<Rightarrow> 0 | Some e \<Rightarrow> length e)"

definition spaceSuffix :: "string \<Rightarrow> nat" where
  \<comment> \<open>The width of the space rune \<open>s\<close> ends with, 0 when it ends with none.\<close>
  "spaceSuffix s = (case find (HasSuffix s) spaceRunes of None \<Rightarrow> 0 | Some e \<Rightarrow> length e)"

lemma spacePrefix_le: "spacePrefix s \<le> length s"
  by (auto simp: spacePrefix_def HasPrefix_def split: option.splits
      dest!: find_Some_iff[THEN iffD1])

lemma spaceSuffix_le: "spaceSuffix s \<le> length s"
  by (auto simp: spaceSuffix_def HasSuffix_def split: option.splits
      dest!: find_Some_iff[THEN iffD1])

function TrimLeft :: "string \<Rightarrow> string" where
  "TrimLeft s = (if spacePrefix s = 0 then s else TrimLeft (drop (spacePrefix s) s))"
  by pat_completeness auto
termination
proof (relation "measure length")
  fix s assume "spacePrefix s \<noteq> 0"
  with spacePrefix_le[of s] show "(drop (spacePrefix s) s, s) \<in> measure length"
    by simp
qed simp

function TrimRight :: "string \<Rightarrow> string" where
  "TrimRight s =
     (if spaceSuffix s = 0 then s else TrimRight (take (length s - spaceSuffix s) s))"
  by pat_completeness auto
termination
proof (relation "measure length")
  fix s assume "spaceSuffix s \<noteq> 0"
  with spaceSuffix_le[of s]
  show "(take (length s - spaceSuffix s) s, s) \<in> measure length"
    by simp
qed simp

definition TrimSpace :: "string \<Rightarrow> string" where
  "TrimSpace s = TrimRight (TrimLeft s)"

subsection \<open>Runes\<close>

text \<open>
  A \<^verbatim>\<open>for i, c := range s\<close> loop decodes one UTF-8 rune at byte index \<open>i\<close> and
  continues behind it. \<open>DecodeRuneInString\<close> is \<^verbatim>\<open>utf8.DecodeRuneInString\<close> on
  the values of the bytes: the rune and its width in bytes, \<open>RuneError\<close> with width 1 for
  a byte that starts no valid encoding.
\<close>

definition RuneError :: nat where
  "RuneError = 0xFFFD"

fun DecodeRune :: "nat list \<Rightarrow> nat \<times> nat" where
  "DecodeRune [] = (RuneError, 0)"
| "DecodeRune (s0 # rest) =
     (if s0 < 0x80 then (s0, 1)
      else if s0 < 0xC2 \<or> 0xF4 < s0 then (RuneError, 1)
      else
        let sz = (if s0 < 0xE0 then 2 else if s0 < 0xF0 then 3 else 4 :: nat);
            lo = (if s0 = 0xE0 then 0xA0 else if s0 = 0xF0 then 0x90 else 0x80);
            hi = (if s0 = 0xED then 0x9F else if s0 = 0xF4 then 0x8F else 0xBF)
        in if length rest + 1 < sz then (RuneError, 1)
           else
             let s1 = rest ! 0
             in if s1 < lo \<or> hi < s1 then (RuneError, 1)
                else if sz \<le> 2 then ((s0 mod 0x20) * 0x40 + s1 mod 0x40, 2)
                else
                  let s2 = rest ! 1
                  in if s2 < 0x80 \<or> 0xBF < s2 then (RuneError, 1)
                     else if sz \<le> 3
                       then ((s0 mod 0x10) * 0x1000 + (s1 mod 0x40) * 0x40 + s2 mod 0x40, 3)
                     else
                       let s3 = rest ! 2
                       in if s3 < 0x80 \<or> 0xBF < s3 then (RuneError, 1)
                          else ((s0 mod 0x08) * 0x40000 + (s1 mod 0x40) * 0x1000
                                + (s2 mod 0x40) * 0x40 + s3 mod 0x40, 4))"

definition DecodeRuneInString :: "string \<Rightarrow> nat \<times> nat" where
  "DecodeRuneInString s = DecodeRune (map of_char s)"

lemma DecodeRune_size: "xs \<noteq> [] \<Longrightarrow> 1 \<le> snd (DecodeRune xs)"
  by (cases xs) (simp_all add: Let_def)

function runes :: "string \<Rightarrow> nat \<Rightarrow> (nat \<times> nat) list" where
  \<comment> \<open>The pairs \<open>(i, c)\<close> a \<^verbatim>\<open>range\<close> loop over the string yields, \<open>i\<close> counted from the
      byte index the string starts at.\<close>
  "runes s i =
     (if s = [] then []
      else let (c, width) = DecodeRuneInString s in (i, c) # runes (drop width s) (i + width))"
  by pat_completeness auto
termination
proof (relation "measure (\<lambda>(s, i). length s)")
  fix s :: string and i :: nat and x c width
  assume a: "s \<noteq> []" "x = DecodeRuneInString s" "(c, width) = x"
  have "1 \<le> snd (DecodeRune (map of_char s))"
    using a(1) by (intro DecodeRune_size) simp
  with a(2,3) have "1 \<le> width"
    by (metis DecodeRuneInString_def snd_conv)
  with a(1) show "((drop width s, i + width), (s, i)) \<in> measure (\<lambda>(s, i). length s)"
    by simp
qed simp

declare DecodeRune.simps [simp del]
declare runes.simps [simp del]

subsection \<open>What the decoder takes from outside the repository's files\<close>

text \<open>
  Two library functions cannot be written out: \<^verbatim>\<open>strconv.ParseFloat(val, 64)\<close>
  (IEEE 754 binary64) and the Unicode table behind \<^verbatim>\<open>unicode.IsLetter\<close>. They are the
  fields of a record every function below that needs them takes as its first argument;
  the theorems hold for every such record. \<open>ParseFloat\<close> is \<open>None\<close> where the Go function
  returns an error; the type \<open>'f\<close> stands for \<^verbatim>\<open>float64\<close>, its \<open>0\<close> for the zero value a
  fresh slice holds. \<open>LetterTable\<close> is asked about runes from U+0080 on only.
\<close>

record 'f stdlib =
  ParseFloat :: "string \<Rightarrow> 'f option"
  LetterTable :: "nat \<Rightarrow> bool"

definition IsLetter :: "'f stdlib \<Rightarrow> nat \<Rightarrow> bool" where
  \<comment> \<open>\<^verbatim>\<open>unicode.IsLetter\<close>: below U+0080 the letters are A to Z and a to z.\<close>
  "IsLetter env r =
     (if r < 0x80 then (0x41 \<le> r \<and> r \<le> 0x5A) \<or> (0x61 \<le> r \<and> r \<le> 0x7A)
      else LetterTable env r)"

subsection \<open>Package geom\<close>

text \<open>
  Modelled from the spec: package geom (the layouts, the geometry types, their
  constructors, \<^verbatim>\<open>MustSetCoords\<close>, \<^verbatim>\<open>MustPush\<close> and \<^verbatim>\<open>Coord.Equal\<close>) is not among
  the source files. The spec gives the layouts with their strides 2, 3, 3 and 4, the
  geometry variants as a tagged union over nested coordinate sequences, empty geometries
  with a zero-length coordinate structure, a coordinate assignment that fails when the
  stride does not match, and an append that keeps insertion order.
\<close>

datatype Layout = NoLayout | XY | XYZ | XYM | XYZM

fun Stride :: "Layout \<Rightarrow> nat" where
  "Stride NoLayout = 0"
| "Stride XY = 2"
| "Stride XYZ = 3"
| "Stride XYM = 3"
| "Stride XYZM = 4"

type_synonym 'f Coord = "'f list"

datatype 'f T =
    Point Layout "'f Coord option"
  | LineString Layout "'f Coord list"
  | LinearRing Layout "'f Coord list"
  | Polygon Layout "'f Coord list list"
  | MultiPoint Layout "'f Coord list"
  | MultiLineString Layout "'f Coord list list"
  | MultiPolygon Layout "'f Coord list list list"
  | GeometryCollection "'f T list"

definition deflate0 :: "Layout \<Rightarrow> 'f Coord \<Rightarrow> error + unit" where
  \<comment> \<open>The stride check of a coordinate assignment; a \<^verbatim>\<open>Must\<close> method panics on it.\<close>
  "deflate0 l c =
     (if length c = Stride l then Inr () else Inl (Panic (StrideMismatch (length c) (Stride l))))"

fun deflate1 :: "Layout \<Rightarrow> 'f Coord list \<Rightarrow> error + unit" where
  "deflate1 l [] = Inr ()"
| "deflate1 l (c # cs) = (case deflate0 l c of Inl e \<Rightarrow> Inl e | Inr _ \<Rightarrow> deflate1 l cs)"

fun deflate2 :: "Layout \<Rightarrow> 'f Coord list list \<Rightarrow> error + unit" where
  "deflate2 l [] = Inr ()"
| "deflate2 l (c # cs) = (case deflate1 l c of Inl e \<Rightarrow> Inl e | Inr _ \<Rightarrow> deflate2 l cs)"

fun deflate3 :: "Layout \<Rightarrow> 'f Coord list list list \<Rightarrow> error + unit" where
  "deflate3 l [] = Inr ()"
| "deflate3 l (c # cs) = (case deflate2 l c of Inl e \<Rightarrow> Inl e | Inr _ \<Rightarrow> deflate3 l cs)"

definition Point_MustSetCoords :: "Layout \<Rightarrow> 'f Coord \<Rightarrow> error + 'f T" where
  "Point_MustSetCoords l c =
     (case deflate0 l c of Inl e \<Rightarrow> Inl e | Inr _ \<Rightarrow> Inr (Point l (Some c)))"

definition LineString_MustSetCoords :: "Layout \<Rightarrow> 'f Coord list \<Rightarrow> error + 'f T" where
  "LineString_MustSetCoords l cs =
     (case deflate1 l cs of Inl e \<Rightarrow> Inl e | Inr _ \<Rightarrow> Inr (LineString l cs))"

definition LinearRing_MustSetCoords :: "Layout \<Rightarrow> 'f Coord list \<Rightarrow> error + 'f T" where
  "LinearRing_MustSetCoords l cs =
     (case deflate1 l cs of Inl e \<Rightarrow> Inl e | Inr _ \<Rightarrow> Inr (LinearRing l cs))"

definition Polygon_MustSetCoords :: "Layout \<Rightarrow> 'f Coord list list \<Rightarrow> error + 'f T" where
  "Polygon_MustSetCoords l cs =
     (case deflate2 l cs of Inl e \<Rightarrow> Inl e | Inr _ \<Rightarrow> Inr (Polygon l cs))"

definition MultiPoint_MustSetCoords :: "Layout \<Rightarrow> 'f Coord list \<Rightarrow> error + 'f T" where
  "MultiPoint_MustSetCoords l cs =
     (case deflate1 l cs of Inl e \<Rightarrow> Inl e | Inr _ \<Rightarrow> Inr (MultiPoint l cs))"

definition MultiLineString_MustSetCoords :: "Layout \<Rightarrow> 'f Coord list list \<Rightarrow> error + 'f T" where
  "MultiLineString_MustSetCoords l cs =
     (case deflate2 l cs of Inl e \<Rightarrow> Inl e | Inr _ \<Rightarrow> Inr (MultiLineString l cs))"

definition MultiPolygon_MustSetCoords ::
  "Layout \<Rightarrow> 'f Coord list list list \<Rightarrow> error + 'f T" where
  "MultiPolygon_MustSetCoords l cs =
     (case deflate3 l cs of Inl e \<Rightarrow> Inl e | Inr _ \<Rightarrow> Inr (MultiPolygon l cs))"

definition NewPointEmpty :: "Layout \<Rightarrow> 'f T" where "NewPointEmpty l = Point l None"
definition NewLineString :: "Layout \<Rightarrow> 'f T" where "NewLineString l = LineString l []"
definition NewPolygon :: "Layout \<Rightarrow> 'f T" where "NewPolygon l = Polygon l []"
definition NewMultiPoint :: "Layout \<Rightarrow> 'f T" where "NewMultiPoint l = MultiPoint l []"
definition NewMultiLineString :: "Layout \<Rightarrow> 'f T" where
  "NewMultiLineString l = MultiLineString l []"
definition NewMultiPolygon :: "Layout \<Rightarrow> 'f T" where "NewMultiPolygon l = MultiPolygon l []"

definition MustPush :: "'f T list \<Rightarrow> 'f T \<Rightarrow> 'f T list" where
  \<comment> \<open>The geometries of a collection after \<^verbatim>\<open>gc.MustPush(g)\<close>.\<close>
  "MustPush gc g = gc @ [g]"

definition Equal :: "Layout \<Rightarrow> 'f Coord \<Rightarrow> 'f Coord \<Rightarrow> bool" where
  \<comment> \<open>\<^verbatim>\<open>c.Equal(layout, other)\<close>: the ordinates of the layout are the same in both.\<close>
  "Equal l c other = (take (Stride l) c = take (Stride l) other)"

subsection \<open>The keyword literals\<close>

text \<open>
  Modelled from the spec: the constants \<^verbatim>\<open>tPoint\<close> to \<^verbatim>\<open>tGeometryCollection\<close>,
  \<^verbatim>\<open>tZ\<close>, \<^verbatim>\<open>tM\<close>, \<^verbatim>\<open>tZm\<close> and \<^verbatim>\<open>tEmpty\<close> are declared in a file of the package
  that is not among the source files. The spec names the seven keyword literals, the
  modifiers "ZM", "M" and "Z" and the suffix "EMPTY", and writes its examples with the
  keyword directly before the parenthesis, as in "POINT(1 2)".
\<close>

definition tPoint :: string where "tPoint = ''POINT''"
definition tMultiPoint :: string where "tMultiPoint = ''MULTIPOINT''"
definition tLineString :: string where "tLineString = ''LINESTRING''"
definition tMultiLineString :: string where "tMultiLineString = ''MULTILINESTRING''"
definition tPolygon :: string where "tPolygon = ''POLYGON''"
definition tMultiPolygon :: string where "tMultiPolygon = ''MULTIPOLYGON''"
definition tGeometryCollection :: string where "tGeometryCollection = ''GEOMETRYCOLLECTION''"
definition tZ :: string where "tZ = ''Z''"
definition tM :: string where "tM = ''M''"
definition tZm :: string where "tZm = ''ZM''"
definition tEmpty :: string where "tEmpty = ''EMPTY''"

subsection \<open>decode.go\<close>

definition findTypeAndLayout :: "string \<Rightarrow> error + (string \<times> Layout)" where
  "findTypeAndLayout wkt =
     (case (if HasPrefix wkt tPoint then Some tPoint
            else if HasPrefix wkt tLineString then Some tLineString
            else if HasPrefix wkt tPolygon then Some tPolygon
            else if HasPrefix wkt tMultiPoint then Some tMultiPoint
            else if HasPrefix wkt tMultiLineString then Some tMultiLineString
            else if HasPrefix wkt tMultiPolygon then Some tMultiPolygon
            else if HasPrefix wkt tGeometryCollection then Some tGeometryCollection
            else None) of
        None \<Rightarrow> Inl (UnknownType wkt)
      | Some typeString \<Rightarrow>
          Inr (typeString,
               if HasPrefix wkt (typeString @ tZm) then XYZM
               else if HasPrefix wkt (typeString @ tM) then XYM
               else if HasPrefix wkt (typeString @ tZ) then XYZ
               else XY))"

text \<open>
  The loop of \<^verbatim>\<open>braceContentAndRest\<close> over the runes of \<open>s\<close>: the result is
  \<^verbatim>\<open>braceOpenIdx\<close> and \<^verbatim>\<open>braceCloseIdx\<close> when the loop ends, -1 for an index that was
  never set. The opening and the closing brace are the runes U+0028 and U+0029.
\<close>

fun scanBraces :: "(nat \<times> nat) list \<Rightarrow> int \<Rightarrow> nat \<Rightarrow> nat \<Rightarrow> int \<times> int" where
  "scanBraces [] braceOpenIdx braceOpenCount braceCloseCount = (braceOpenIdx, - 1)"
| "scanBraces ((i, c) # rs) braceOpenIdx braceOpenCount braceCloseCount =
     (if c = 0x28
      then scanBraces rs (if braceOpenCount = 0 then int i else braceOpenIdx)
             (braceOpenCount + 1) braceCloseCount
      else if c = 0x29
      then (if braceCloseCount + 1 = braceOpenCount then (braceOpenIdx, int i)
            else scanBraces rs braceOpenIdx braceOpenCount (braceCloseCount + 1))
      else scanBraces rs braceOpenIdx braceOpenCount braceCloseCount)"

definition braceContentAndRest :: "string \<Rightarrow> error + (string \<times> string)" where
  "braceContentAndRest s =
     (case scanBraces (runes s 0) (- 1) 0 0 of
        (braceOpenIdx, braceCloseIdx) \<Rightarrow>
          if braceOpenIdx < 0 \<or> braceCloseIdx < 0 then Inl (MalformedBraces s)
          else
            (case slice s (nat (braceOpenIdx + 1)) (nat braceCloseIdx) of
               Inl e \<Rightarrow> Inl e
             | Inr braceContent \<Rightarrow>
                 (case slice s (nat braceCloseIdx) (length s) of
                    Inl e \<Rightarrow> Inl e
                  | Inr rest \<Rightarrow> Inr (braceContent, rest))))"

definition braceContentAndRestStartingWithOpeningBrace ::
  "string \<Rightarrow> error + (string \<times> string)" where
  "braceContentAndRestStartingWithOpeningBrace s =
     (case braceContentAndRest s of
        Inl e \<Rightarrow> Inl e
      | Inr (content, rest) \<Rightarrow>
          let nextOpeningBraceIdx = Index rest (CHR ''('')
          in if nextOpeningBraceIdx > - 1
             then (case slice rest (nat nextOpeningBraceIdx) (length rest) of
                     Inl e \<Rightarrow> Inl e
                   | Inr rest' \<Rightarrow> Inr (content, rest'))
             else Inr (content, []))"

definition typeContentAndRestStartingWithLetter ::
  "'f stdlib \<Rightarrow> string \<Rightarrow> error + (string \<times> string)" where
  "typeContentAndRestStartingWithLetter env s =
     (case braceContentAndRest s of
        Inl e \<Rightarrow> Inl e
      | Inr (content, rest) \<Rightarrow>
          (case findTypeAndLayout s of
             Inl e \<Rightarrow> Inl e
           | Inr (t, _) \<Rightarrow>
               let content' = t @ ''('' @ content @ '')'';
                   nextLetterIdx =
                     (case find (\<lambda>(i, char). IsLetter env char) (runes rest 0) of
                        None \<Rightarrow> - 1
                      | Some (i, _) \<Rightarrow> int i)
               in if nextLetterIdx > - 1
                  then (case slice rest (nat nextLetterIdx) (length rest) of
                          Inl e \<Rightarrow> Inl e
                        | Inr rest' \<Rightarrow> Inr (content', rest'))
                  else Inr (content', [])))"

text \<open>
  The inner loop of \<^verbatim>\<open>coordsFromBraceContent\<close> over \<^verbatim>\<open>coordElems\<close>, from index
  \<open>i\<close>, writing into \<^verbatim>\<open>coordVals\<close>; then its outer loop over \<^verbatim>\<open>coordStrings\<close>,
  appending to \<^verbatim>\<open>coords\<close>.
\<close>

fun parseElems :: "'f stdlib \<Rightarrow> string list \<Rightarrow> nat \<Rightarrow> 'f list \<Rightarrow> error + 'f list" where
  "parseElems env [] i coordVals = Inr coordVals"
| "parseElems env (val # vals) i coordVals =
     (case ParseFloat env val of
        None \<Rightarrow> Inl (InvalidOrdinate val)
      | Some f \<Rightarrow>
          if i < length coordVals then parseElems env vals (i + 1) (coordVals[i := f])
          else Inl (Panic IndexOutOfRange))"

fun coordsLoop ::
  "('f::zero) stdlib \<Rightarrow> string \<Rightarrow> Layout \<Rightarrow> string list \<Rightarrow> 'f Coord list
     \<Rightarrow> error + 'f Coord list" where
  "coordsLoop env s l [] coords = Inr coords"
| "coordsLoop env s l (coordStr # coordStrings) coords =
     (let coordElems = Split (TrimSpace coordStr) (CHR '' '')
      in if length coordElems \<noteq> Stride l then Inl (DimensionMismatch (Stride l) s)
         else (case parseElems env coordElems 0 (replicate (Stride l) 0) of
                 Inl e \<Rightarrow> Inl e
               | Inr coordVals \<Rightarrow> coordsLoop env s l coordStrings (coords @ [coordVals])))"

definition coordsFromBraceContent ::
  "('f::zero) stdlib \<Rightarrow> string \<Rightarrow> Layout \<Rightarrow> error + 'f Coord list" where
  "coordsFromBraceContent env s l = coordsLoop env s l (Split s (CHR '','')) []"

definition readCoordsDim1 ::
  "('f::zero) stdlib \<Rightarrow> Layout \<Rightarrow> string \<Rightarrow> error + ('f Coord list \<times> string)" where
  "readCoordsDim1 env l wkt =
     (if HasSuffix wkt tEmpty then Inr ([], [])
      else (case braceContentAndRestStartingWithOpeningBrace wkt of
              Inl e \<Rightarrow> Inl e
            | Inr (braceContent, rest) \<Rightarrow>
                (case coordsFromBraceContent env braceContent l of
                   Inl e \<Rightarrow> Inl e
                 | Inr coords \<Rightarrow> Inr (coords, rest))))"

subsection \<open>The brace scanner, byte by byte\<close>

text \<open>
  The braces are ASCII, and every byte of a multi-byte rune (or of an invalid sequence) is
  at least 0x80, so the loop over the runes sees the braces a loop over the bytes sees, at
  the same indices. \<open>scanBytes\<close> is that loop over the bytes; the properties of the
  scanner are proved on it.
\<close>

lemma of_char_paren: "of_char b = (0x28::nat) \<longleftrightarrow> b = CHR ''(''" "of_char b = (0x29::nat) \<longleftrightarrow> b = CHR '')''"
  using of_char_eq_iff[of b "CHR ''(''", where ?'a = nat] of_char_eq_iff[of b "CHR '')''", where ?'a = nat]
  by simp_all

lemma DecodeRune_ascii: "s0 < 0x80 \<Longrightarrow> DecodeRune (s0 # rest) = (s0, 1)"
  by (simp add: DecodeRune.simps)

lemma mod_lower:
  assumes "q * m + r \<le> (s::nat)" "s < q * m + m"
  shows "r \<le> s mod m"
proof -
  define k where "k = s - q * m"
  have s: "s = q * m + k" and k: "r \<le> k" "k < m" using assms by (simp_all add: k_def)
  have "s mod m = k" unfolding s using k by simp
  with k show ?thesis by simp
qed

lemma m32: "194 \<le> (s0::nat) \<Longrightarrow> s0 < 224 \<Longrightarrow> 2 \<le> s0 mod 32"
  using mod_lower[of 6 32 2 s0] by simp
lemma m64a: "160 \<le> (s1::nat) \<Longrightarrow> s1 \<le> 191 \<Longrightarrow> 32 \<le> s1 mod 64"
  using mod_lower[of 2 64 32 s1] by simp
lemma m16: "224 < (s0::nat) \<Longrightarrow> s0 < 240 \<Longrightarrow> 1 \<le> s0 mod 16"
  using mod_lower[of 14 16 1 s0] by simp
lemma m64b: "144 \<le> (s1::nat) \<Longrightarrow> s1 \<le> 191 \<Longrightarrow> 16 \<le> s1 mod 64"
  using mod_lower[of 2 64 16 s1] by simp
lemma m8: "240 < (s0::nat) \<Longrightarrow> s0 \<le> 244 \<Longrightarrow> 1 \<le> s0 mod 8"
  using mod_lower[of 30 8 1 s0] by simp

lemma dec2: "194 \<le> (s0::nat) \<Longrightarrow> s0 < 224 \<Longrightarrow> 128 \<le> s0 mod 32 * 64 + x"
  using m32[of s0] by linarith
lemma dec3a: "160 \<le> (s1::nat) \<Longrightarrow> s1 \<le> 191 \<Longrightarrow> 128 \<le> y + s1 mod 64 * 64 + x"
  using m64a[of s1] by linarith
lemma dec3b: "224 < (s0::nat) \<Longrightarrow> s0 < 240 \<Longrightarrow> 128 \<le> s0 mod 16 * 4096 + y + x"
  using m16[of s0] by linarith
lemma dec4a: "144 \<le> (s1::nat) \<Longrightarrow> s1 \<le> 191 \<Longrightarrow> 128 \<le> z + s1 mod 64 * 4096 + y + x"
  using m64b[of s1] by linarith
lemma dec4b: "240 < (s0::nat) \<Longrightarrow> s0 \<le> 244 \<Longrightarrow> 128 \<le> s0 mod 8 * 262144 + z + y + x"
  using m8[of s0] by linarith

lemma DecodeRune_high_val:
  assumes "0x80 \<le> s0"
  shows "0x80 \<le> fst (DecodeRune (s0 # rest))"
proof -
  consider "s0 < 0xC2 \<or> 0xF4 < s0" | "0xC2 \<le> s0" "s0 < 0xE0" | "s0 = 0xE0" | "0xE0 < s0" "s0 < 0xF0"
    | "s0 = 0xF0" | "0xF0 < s0" "s0 \<le> 0xF4" by linarith
  then show ?thesis
  proof cases
    case 1
    with assms show ?thesis by (auto simp: DecodeRune.simps RuneError_def)
  next
    case 2
    with m32[of s0] show ?thesis by (auto simp: DecodeRune.simps RuneError_def Let_def)
  next
    case 3
    with m64a[of "rest ! 0"] show ?thesis by (auto simp: DecodeRune.simps RuneError_def Let_def)
  next
    case 4
    with m16[of s0] show ?thesis by (auto simp: DecodeRune.simps RuneError_def Let_def)
  next
    case 5
    with m64b[of "rest ! 0"] show ?thesis by (auto simp: DecodeRune.simps RuneError_def Let_def)
  next
    case 6
    with m8[of s0] show ?thesis by (auto simp: DecodeRune.simps RuneError_def Let_def)
  qed
qed

lemma DecodeRune_width_aux:
  assumes "DecodeRune (s0 # rest) = (c, w)"
  shows "1 \<le> w \<and> w \<le> Suc (length rest) \<and> (2 \<le> w \<longrightarrow> 0x80 \<le> rest ! 0) \<and> (3 \<le> w \<longrightarrow> 0x80 \<le> rest ! 1) \<and> (4 \<le> w \<longrightarrow> 0x80 \<le> rest ! 2) \<and> w \<le> 4"
proof -
  consider "s0 < 0x80 \<or> s0 < 0xC2 \<or> 0xF4 < s0" | "0xC2 \<le> s0" "s0 < 0xE0" | "0xE0 \<le> s0" "s0 < 0xF0"
    | "0xF0 \<le> s0" "s0 \<le> 0xF4" by linarith
  then show ?thesis
  proof cases
    case 1
    with assms show ?thesis by (auto simp: DecodeRune.simps split: if_splits)
  next
    case 2
    with assms show ?thesis
      by (auto simp: DecodeRune.simps Let_def Suc_le_eq split: if_splits)
  next
    case 3
    with assms show ?thesis
      by (auto simp: DecodeRune.simps Let_def Suc_le_eq split: if_splits)
  next
    case 4
    with assms show ?thesis
      by (auto simp: DecodeRune.simps Let_def Suc_le_eq split: if_splits)
  qed
qed

lemma DecodeRune_width:
  assumes "DecodeRune (s0 # rest) = (c, w)"
  shows "1 \<le> w" and "w \<le> Suc (length rest)"
    and "\<And>j. 1 \<le> j \<Longrightarrow> j < w \<Longrightarrow> 0x80 \<le> (s0 # rest) ! j"
proof -
  note W = DecodeRune_width_aux[OF assms]
  show "1 \<le> w" "w \<le> Suc (length rest)" using W by simp_all
  fix j assume j: "1 \<le> j" "j < w"
  with W have "j = 1 \<or> j = 2 \<or> j = 3" by linarith
  then show "0x80 \<le> (s0 # rest) ! j" using j W by auto
qed

fun scanBytes :: "string \<Rightarrow> nat \<Rightarrow> int \<Rightarrow> nat \<Rightarrow> nat \<Rightarrow> int \<times> int" where
  "scanBytes [] i oi oc cc = (oi, - 1)"
| "scanBytes (x # xs) i oi oc cc =
     (if x = CHR ''('' then scanBytes xs (Suc i) (if oc = 0 then int i else oi) (Suc oc) cc
      else if x = CHR '')'' then (if Suc cc = oc then (oi, int i) else scanBytes xs (Suc i) oi oc (Suc cc))
      else scanBytes xs (Suc i) oi oc cc)"

lemma scanBytes_skip:
  "\<forall>x\<in>set p. x \<noteq> CHR ''('' \<and> x \<noteq> CHR '')'' \<Longrightarrow>
   scanBytes (p @ q) i oi oc cc = scanBytes q (i + length p) oi oc cc"
  by (induction p arbitrary: i) auto

lemma high_not_paren: "0x80 \<le> (of_char x :: nat) \<Longrightarrow> x \<noteq> CHR ''('' \<and> x \<noteq> CHR '')''"
  by auto

lemma DecodeRune_high_prefix:
  assumes d: "DecodeRuneInString (b # rest) = (c, w)" and h: "0x80 \<le> (of_char b :: nat)"
  shows "\<forall>x\<in>set (take w (b # rest)). x \<noteq> CHR ''('' \<and> x \<noteq> CHR '')''"
proof -
  from d have d': "DecodeRune (of_char b # map of_char rest) = (c, w)"
    by (simp add: DecodeRuneInString_def)
  note W = DecodeRune_width[OF d']
  have len: "w \<le> length (b # rest)" using W(2) by simp
  have hi: "0x80 \<le> (of_char ((b # rest) ! j) :: nat)" if "j < w" for j
  proof (cases "j = 0")
    case True
    with h show ?thesis by simp
  next
    case False
    with that have "(0x80::nat) \<le> (of_char b # map of_char rest) ! j" by (intro W(3)) simp_all
    moreover have "(of_char b # map of_char rest) ! j = (of_char ((b # rest) ! j) :: nat)"
      using that len nth_map[of j "b # rest" of_char] by simp
    ultimately show ?thesis by simp
  qed
  show ?thesis
  proof
    fix x assume "x \<in> set (take w (b # rest))"
    then obtain j where j: "j < w" "x = (b # rest) ! j"
      using len by (auto simp: in_set_conv_nth)
    from hi[OF j(1)] show "x \<noteq> CHR ''('' \<and> x \<noteq> CHR '')''"
      unfolding j(2) by (rule high_not_paren)
  qed
qed

lemma scanBraces_runes: "scanBraces (runes s i) oi oc cc = scanBytes s i oi oc cc"
proof (induction "length s" arbitrary: s i oi oc cc rule: less_induct)
  case less
  show ?case
  proof (cases s)
    case Nil
    then show ?thesis by (simp add: runes.simps)
  next
    case (Cons b rest)
    obtain c w where d: "DecodeRuneInString (b # rest) = (c, w)" by fastforce
    then have d': "DecodeRune (of_char b # map of_char rest) = (c, w)"
      by (simp add: DecodeRuneInString_def)
    note W = DecodeRune_width[OF d']
    have r: "runes s i = (i, c) # runes (drop w s) (i + w)"
      using Cons d by (subst runes.simps) simp
    have IH: "scanBraces (runes (drop w s) j) oi' oc' cc' = scanBytes (drop w s) j oi' oc' cc'" for j oi' oc' cc'
      using less[of "drop w s"] W(1) Cons by simp
    show ?thesis
    proof (cases "(of_char b :: nat) < 0x80")
      case True
      with d' have cw: "c = of_char b" "w = 1" by (simp_all add: DecodeRune_ascii)
      show ?thesis unfolding r using IH Cons cw by (simp add: of_char_paren)
    next
      case False
      then have h: "0x80 \<le> (of_char b :: nat)" by simp
      from DecodeRune_high_val[OF h, of "map of_char rest"] d'
      have c: "c \<noteq> 0x28" "c \<noteq> 0x29" by auto
      have "scanBytes (take w s @ drop w s) i oi oc cc = scanBytes (drop w s) (i + length (take w s)) oi oc cc"
        using DecodeRune_high_prefix[OF d h] Cons by (intro scanBytes_skip) simp
      moreover have "length (take w s) = w" using W(2) Cons by simp
      ultimately show ?thesis unfolding r using c IH by simp
    qed
  qed
qed

text \<open>
  \<open>balancedFrom b d\<close>: read from nesting depth \<open>d\<close>, the braces of \<open>b\<close> never close a
  brace that was not opened in \<open>b\<close> or counted in \<open>d\<close>, and end at depth 0.
\<close>

fun balancedFrom :: "string \<Rightarrow> nat \<Rightarrow> bool" where
  "balancedFrom [] d = (d = 0)"
| "balancedFrom (x # xs) d =
     (if x = CHR ''('' then balancedFrom xs (Suc d)
      else if x = CHR '')'' then 0 < d \<and> balancedFrom xs (d - 1)
      else balancedFrom xs d)"

definition balanced :: "string \<Rightarrow> bool" where
  "balanced b = balancedFrom b 0"

lemma scanBytes_fst: "0 < oc \<Longrightarrow> fst (scanBytes s i oi oc cc) = oi"
  by (induction s arbitrary: i oc cc) auto

lemma scanBytes_no_open: "CHR ''('' \<notin> set s \<Longrightarrow> scanBytes s i oi 0 cc = (oi, - 1)"
  by (induction s arbitrary: i cc) auto

lemma scanBytes_first_open:
  "CHR ''('' \<notin> set k \<Longrightarrow>
   scanBytes (k @ CHR ''('' # rest) i oi 0 cc =
   scanBytes rest (Suc (i + length k)) (int (i + length k)) 1 (cc + count_list k (CHR '')''))"
  by (induction k arbitrary: i cc) (auto simp: ac_simps)

lemma scanBytes_close:
  "scanBytes s i oi oc cc = (x, c) \<Longrightarrow> 0 \<le> c \<Longrightarrow>
   \<exists>b t. s = b @ CHR '')'' # t \<and> c = int (i + length b)"
proof (induction s arbitrary: i oi oc cc)
  case Nil
  then show ?case by simp
next
  case (Cons a s)
  show ?case
  proof (cases "a = CHR '')'' \<and> Suc cc = oc")
    case True
    with Cons.prems have "c = int i" by simp
    with True show ?thesis by (intro exI[of _ "[]"] exI[of _ s]) simp
  next
    case False
    then obtain oi' oc' cc' where "scanBytes s (Suc i) oi' oc' cc' = (x, c)"
      using Cons.prems(1) by (auto split: if_splits)
    from Cons.IH[OF this Cons.prems(2)] obtain b t where
      "s = b @ CHR '')'' # t" "c = int (Suc i + length b)" by blast
    then show ?thesis by (intro exI[of _ "a # b"] exI[of _ t]) simp
  qed
qed

lemma scanBytes_append:
  "scanBytes s i oi oc cc = (x, c) \<Longrightarrow> 0 \<le> c \<Longrightarrow> scanBytes (s @ t) i oi oc cc = (x, c)"
  by (induction s arbitrary: i oi oc cc) (auto split: if_splits)

lemma scanBytes_balanced:
  "balancedFrom b n \<Longrightarrow> Suc (cc + n) = oc \<Longrightarrow>
   scanBytes (b @ CHR '')'' # t) i oi oc cc = (oi, int (i + length b))"
proof (induction b arbitrary: n i oc cc)
  case Nil
  then show ?case by simp
next
  case (Cons a b)
  then show ?case by (cases n) (auto split: if_splits)
qed

lemma scanBytes_balanced_conv:
  "scanBytes s i oi oc cc = (x, c) \<Longrightarrow> 0 \<le> c \<Longrightarrow> cc < oc \<Longrightarrow>
   \<exists>b t. s = b @ CHR '')'' # t \<and> c = int (i + length b) \<and> balancedFrom b (oc - cc - 1)"
proof (induction s arbitrary: i oi oc cc)
  case Nil
  then show ?case by simp
next
  case (Cons a s)
  show ?case
  proof (cases "a = CHR '')'' \<and> Suc cc = oc")
    case True
    with Cons.prems have "c = int i" by simp
    with True show ?thesis by (intro exI[of _ "[]"] exI[of _ s]) auto
  next
    case False
    show ?thesis
    proof (cases "a = CHR ''(''")
      case True
      with Cons.prems have "scanBytes s (Suc i) (if oc = 0 then int i else oi) (Suc oc) cc = (x, c)" by simp
      from Cons.IH[OF this Cons.prems(2)] Cons.prems(3) obtain b t where
        "s = b @ CHR '')'' # t" "c = int (Suc i + length b)" "balancedFrom b (Suc oc - cc - 1)" by auto
      moreover have "Suc oc - cc - 1 = Suc (oc - cc - 1)" using Cons.prems(3) by simp
      ultimately show ?thesis using True by (intro exI[of _ "a # b"] exI[of _ t]) simp
    next
      case nopen: False
      show ?thesis
      proof (cases "a = CHR '')''")
        case True
        with False have ne: "Suc cc \<noteq> oc" by simp
        with True Cons.prems have "scanBytes s (Suc i) oi oc (Suc cc) = (x, c)" by simp
        from Cons.IH[OF this Cons.prems(2)] Cons.prems(3) ne obtain b t where
          bt: "s = b @ CHR '')'' # t" "c = int (Suc i + length b)" "balancedFrom b (oc - Suc cc - 1)" by auto
        have "0 < oc - cc - 1" "oc - cc - 1 - 1 = oc - Suc cc - 1" using Cons.prems(3) ne by simp_all
        with bt show ?thesis using True by (intro exI[of _ "a # b"] exI[of _ t]) simp
      next
        case False
        with nopen Cons.prems have "scanBytes s (Suc i) oi oc cc = (x, c)" by simp
        from Cons.IH[OF this Cons.prems(2,3)] obtain b t where
          "s = b @ CHR '')'' # t" "c = int (Suc i + length b)" "balancedFrom b (oc - cc - 1)" by auto
        then show ?thesis using False nopen by (intro exI[of _ "a # b"] exI[of _ t]) simp
      qed
    qed
  qed
qed

lemma takeWhile_first: "c \<notin> set k \<Longrightarrow> takeWhile (\<lambda>x. x \<noteq> c) (k @ c # r) = k"
  by (induction k) auto

lemma braceContentAndRest_no_open:
  "CHR ''('' \<notin> set s \<Longrightarrow> braceContentAndRest s = Inl (MalformedBraces s)"
  by (simp add: braceContentAndRest_def scanBraces_runes scanBytes_no_open)

lemma braceContentAndRest_scan:
  assumes k: "CHR ''('' \<notin> set k"
    and sc: "scanBytes rest (Suc (length k)) (int (length k)) 1 (count_list k (CHR '')'')) = (x, c)"
  shows "c < 0 \<Longrightarrow> braceContentAndRest (k @ CHR ''('' # rest) = Inl (MalformedBraces (k @ CHR ''('' # rest))"
    and "rest = b @ CHR '')'' # t \<Longrightarrow> c = int (Suc (length k) + length b) \<Longrightarrow>
         braceContentAndRest (k @ CHR ''('' # rest) = Inr (b, CHR '')'' # t)"
proof -
  have x: "x = int (length k)"
    using scanBytes_fst[of 1 rest "Suc (length k)" "int (length k)" "count_list k (CHR '')'')"] sc
    by simp
  have s: "scanBraces (runes (k @ CHR ''('' # rest) 0) (- 1) 0 0 = (int (length k), c)"
    using scanBytes_first_open[OF k, of rest 0 "- 1" 0] sc x by (simp add: scanBraces_runes)
  show "braceContentAndRest (k @ CHR ''('' # rest) = Inl (MalformedBraces (k @ CHR ''('' # rest))" if "c < 0"
    using that s by (simp add: braceContentAndRest_def)
  show "braceContentAndRest (k @ CHR ''('' # rest) = Inr (b, CHR '')'' # t)"
    if "rest = b @ CHR '')'' # t" "c = int (Suc (length k) + length b)"
    using that s by (simp add: braceContentAndRest_def slice_def nat_add_distrib)
qed

lemma braceContentAndRest_cases:
  "braceContentAndRest s = Inl (MalformedBraces s) \<or>
   (\<exists>k b t. s = k @ CHR ''('' # b @ CHR '')'' # t \<and> CHR ''('' \<notin> set k \<and>
      scanBytes (b @ CHR '')'' # t) (Suc (length k)) (int (length k)) 1 (count_list k (CHR '')''))
        = (int (length k), int (Suc (length k) + length b)) \<and>
      braceContentAndRest s = Inr (b, CHR '')'' # t))"
proof (cases "CHR ''('' \<in> set s")
  case False
  then show ?thesis by (simp add: braceContentAndRest_no_open)
next
  case True
  then obtain k rest where s: "s = k @ CHR ''('' # rest" and k: "CHR ''('' \<notin> set k"
    by (auto dest: split_list_first)
  obtain x c where sc: "scanBytes rest (Suc (length k)) (int (length k)) 1 (count_list k (CHR '')'')) = (x, c)"
    by fastforce
  have x: "x = int (length k)"
    using scanBytes_fst[of 1 rest "Suc (length k)" "int (length k)" "count_list k (CHR '')'')"] sc
    by simp
  show ?thesis
  proof (cases "c < 0")
    case True
    from braceContentAndRest_scan(1)[OF k sc True] show ?thesis unfolding s by simp
  next
    case False
    then have "0 \<le> c" by simp
    from scanBytes_close[OF sc this] obtain b t where
      bt: "rest = b @ CHR '')'' # t" "c = int (Suc (length k) + length b)" by auto
    from braceContentAndRest_scan(2)[OF k sc bt] sc x bt k show ?thesis unfolding s
      by (intro disjI2 exI[of _ k] exI[of _ b] exI[of _ t]) simp
  qed
qed

lemma braceContentAndRest_Inr:
  assumes "braceContentAndRest s = Inr (c, r)"
  shows "\<exists>k t. s = k @ CHR ''('' # c @ CHR '')'' # t \<and> r = CHR '')'' # t \<and> CHR ''('' \<notin> set k"
  using braceContentAndRest_cases[of s] assms by auto

lemma braceContentAndRest_Inl:
  "braceContentAndRest s = Inl e \<Longrightarrow> e = MalformedBraces s"
  using braceContentAndRest_cases[of s] by auto

lemma braceContentAndRest_balanced:
  assumes "CHR ''('' \<notin> set k" "CHR '')'' \<notin> set k" "balanced b"
  shows "braceContentAndRest (k @ CHR ''('' # b @ CHR '')'' # t) = Inr (b, CHR '')'' # t)"
proof -
  have c0: "count_list k (CHR '')'') = 0" using assms(2) by (simp add: count_list_0_iff)
  have "scanBytes (b @ CHR '')'' # t) (Suc (length k)) (int (length k)) 1 (count_list k (CHR '')''))
        = (int (length k), int (Suc (length k) + length b))"
    using scanBytes_balanced[of b 0 0 1 t "Suc (length k)" "int (length k)"] assms(3) c0
    by (simp add: balanced_def)
  from braceContentAndRest_scan(2)[OF assms(1) this] show ?thesis by simp
qed

lemma braceContentAndRest_append:
  assumes "braceContentAndRest s = Inr (c, r)"
  shows "braceContentAndRest (s @ u) = Inr (c, r @ u)"
proof -
  from braceContentAndRest_cases[of s] assms obtain k t where
    s: "s = k @ CHR ''('' # c @ CHR '')'' # t" and k: "CHR ''('' \<notin> set k" and r: "r = CHR '')'' # t"
    and sc: "scanBytes (c @ CHR '')'' # t) (Suc (length k)) (int (length k)) 1 (count_list k (CHR '')''))
        = (int (length k), int (Suc (length k) + length c))"
    by auto
  have "scanBytes ((c @ CHR '')'' # t) @ u) (Suc (length k)) (int (length k)) 1 (count_list k (CHR '')''))
        = (int (length k), int (Suc (length k) + length c))"
    using scanBytes_append[OF sc, of u] by simp
  from braceContentAndRest_scan(2)[OF k this, of c "t @ u"] show ?thesis
    unfolding s r by simp
qed

lemma braceContentAndRest_content_balanced:
  assumes "braceContentAndRest s = Inr (c, r)"
    and "CHR '')'' \<notin> set (takeWhile (\<lambda>x. x \<noteq> CHR ''('') s)"
  shows "balanced c"
proof -
  from braceContentAndRest_cases[of s] assms(1) obtain k t where
    s: "s = k @ CHR ''('' # c @ CHR '')'' # t" and k: "CHR ''('' \<notin> set k"
    and sc: "scanBytes (c @ CHR '')'' # t) (Suc (length k)) (int (length k)) 1 (count_list k (CHR '')''))
        = (int (length k), int (Suc (length k) + length c))"
    by auto
  have "takeWhile (\<lambda>x. x \<noteq> CHR ''('') s = k" unfolding s using k
    by (rule takeWhile_first)
  with assms(2) have c0: "count_list k (CHR '')'') = 0" by (simp add: count_list_0_iff)
  from scanBytes_balanced_conv[OF sc[unfolded c0]] obtain b' t' where
    e: "c @ CHR '')'' # t = b' @ CHR '')'' # t'" and l: "length c = length b'" and b: "balancedFrom b' 0"
    by auto
  from e l have "b' = c" by (metis append_eq_append_conv)
  with b show ?thesis by (simp add: balanced_def)
qed

lemma slice_from: "a \<le> length s \<Longrightarrow> slice s a (length s) = Inr (drop a s)"
  by (simp add: slice_def)

lemma Index_dropWhile:
  "c \<in> set s \<Longrightarrow> slice s (nat (Index s c)) (length s) = Inr (dropWhile (\<lambda>x. x \<noteq> c) s)"
  by (simp add: Index_def slice_def dropWhile_eq_drop length_takeWhile_le)

lemma braceContentAndRestStartingWithOpeningBrace_eq:
  "braceContentAndRestStartingWithOpeningBrace s =
     (case braceContentAndRest s of
        Inl e \<Rightarrow> Inl e
      | Inr (content, rest) \<Rightarrow> Inr (content, dropWhile (\<lambda>x. x \<noteq> CHR ''('') rest))"
proof -
  have *: "(if Index rest (CHR ''('') > - 1
          then (case slice rest (nat (Index rest (CHR ''(''))) (length rest) of Inl e \<Rightarrow> Inl e
                           | Inr rest' \<Rightarrow> Inr (content, rest'))
          else Inr (content, [])) = Inr (content, dropWhile (\<lambda>x. x \<noteq> CHR ''('') rest)"
    for content rest
  proof (cases "CHR ''('' \<in> set rest")
    case True
    then have "Index rest (CHR ''('') > - 1" by (simp add: Index_def)
    with Index_dropWhile[OF True] show ?thesis by simp
  next
    case False
    then have dw: "dropWhile (\<lambda>x. x \<noteq> CHR ''('') rest = []" by auto
    show ?thesis unfolding dw using False by (simp add: Index_def)
  qed
  show ?thesis
    by (simp add: braceContentAndRestStartingWithOpeningBrace_def Let_def * split: sum.splits prod.splits)
qed

lemma braceContentAndRestStartingWithOpeningBrace_Inl:
  "braceContentAndRestStartingWithOpeningBrace s = Inl e \<Longrightarrow> e = MalformedBraces s"
  by (auto simp: braceContentAndRestStartingWithOpeningBrace_eq split: sum.splits
      dest: braceContentAndRest_Inl)

lemma braceContentAndRestStartingWithOpeningBrace_length:
  assumes "braceContentAndRestStartingWithOpeningBrace s = Inr (c, r)"
  shows "length c + length r + 2 \<le> length s"
proof -
  from assms obtain rest where b: "braceContentAndRest s = Inr (c, rest)"
    and r: "r = dropWhile (\<lambda>x. x \<noteq> CHR ''('') rest"
    by (auto simp: braceContentAndRestStartingWithOpeningBrace_eq split: sum.splits)
  from braceContentAndRest_Inr[OF b] obtain k t where
    s: "s = k @ CHR ''('' # c @ CHR '')'' # t" and rest: "rest = CHR '')'' # t" by auto
  have "length r \<le> length t" unfolding r rest using length_dropWhile_le[of _ t] by simp
  then show ?thesis unfolding s by simp
qed

lemma runes_index: "(i, c) \<in> set (runes s j) \<Longrightarrow> j \<le> i \<and> i < j + length s"
proof (induction "length s" arbitrary: s j rule: less_induct)
  case less
  show ?case
  proof (cases s)
    case Nil
    with less.prems show ?thesis by (simp add: runes.simps)
  next
    case (Cons b rest)
    obtain c' w where d: "DecodeRuneInString (b # rest) = (c', w)" by fastforce
    then have d': "DecodeRune (of_char b # map of_char rest) = (c', w)"
      by (simp add: DecodeRuneInString_def)
    note W = DecodeRune_width[OF d']
    have r: "runes s j = (j, c') # runes (drop w s) (j + w)"
      using Cons d by (subst runes.simps) simp
    from less.prems[unfolded r] consider "i = j" | "(i, c) \<in> set (runes (drop w s) (j + w))" by auto
    then show ?thesis
    proof cases
      case 1
      then show ?thesis using Cons by simp
    next
      case 2
      from less.hyps[OF _ 2] W(1,2) Cons show ?thesis by auto
    qed
  qed
qed

definition typeKeywords :: "string list" where
  "typeKeywords = [tPoint, tLineString, tPolygon, tMultiPoint, tMultiLineString, tMultiPolygon,
               tGeometryCollection]"

lemmas keyword_defs = tPoint_def tLineString_def tPolygon_def tMultiPoint_def
  tMultiLineString_def tMultiPolygon_def tGeometryCollection_def

lemma findTypeAndLayout_Inr:
  "findTypeAndLayout s = Inr (t, l) \<Longrightarrow> t \<in> set typeKeywords \<and> HasPrefix s t"
  by (auto simp: findTypeAndLayout_def typeKeywords_def split: if_splits)

lemma findTypeAndLayout_Inl:
  "findTypeAndLayout s = Inl e \<Longrightarrow> e = UnknownType s"
  by (auto simp: findTypeAndLayout_def split: if_splits)

lemma keywords_no_open: "t \<in> set typeKeywords \<Longrightarrow> CHR ''('' \<notin> set t"
  by (auto simp: typeKeywords_def keyword_defs)

lemma prefix_before_open:
  assumes "HasPrefix (k @ c # r) t" "c \<notin> set t"
  shows "length t \<le> length k"
proof (rule ccontr)
  assume "\<not> length t \<le> length k"
  then have l: "length k < length t" by simp
  from assms(1) have "take (length t) (k @ c # r) = t" by (simp add: HasPrefix_def)
  then have "t ! length k = (k @ c # r) ! length k" using l by (metis nth_take)
  then have "t ! length k = c" by simp
  with l assms(2) show False by (metis nth_mem)
qed

lemma typeContentAndRestStartingWithLetter_Inl:
  "typeContentAndRestStartingWithLetter env s = Inl e \<Longrightarrow>
   e = MalformedBraces s \<or> e = UnknownType s"
proof -
  assume a: "typeContentAndRestStartingWithLetter env s = Inl e"
  show ?thesis
  proof (cases "braceContentAndRest s")
    case (Inl e')
    with a braceContentAndRest_Inl[OF Inl] show ?thesis
      by (simp add: typeContentAndRestStartingWithLetter_def)
  next
    case (Inr cr)
    obtain c rest where cr: "cr = (c, rest)" by fastforce
    show ?thesis
    proof (cases "findTypeAndLayout s")
      case (Inl e')
      with a Inr cr findTypeAndLayout_Inl[OF Inl] show ?thesis
        by (simp add: typeContentAndRestStartingWithLetter_def)
    next
      case tl: (Inr tl)
      obtain t l where tl': "tl = (t, l)" by fastforce
      show ?thesis
      proof (cases "find (\<lambda>(i, char). IsLetter env char) (runes rest 0)")
        case None
        with a Inr cr tl tl' show ?thesis
          by (simp add: typeContentAndRestStartingWithLetter_def)
      next
        case (Some ic)
        obtain i ch where ic: "ic = (i, ch)" by fastforce
        from Some ic have "(i, ch) \<in> set (runes rest 0)"
          by (auto simp: find_Some_iff in_set_conv_nth)
        from runes_index[OF this] have "i < length rest" by simp
        with a Inr cr tl tl' Some ic show ?thesis
          by (simp add: typeContentAndRestStartingWithLetter_def slice_def)
      qed
    qed
  qed
qed

lemma typeContentAndRestStartingWithLetter_Inr:
  assumes "typeContentAndRestStartingWithLetter env s = Inr (g, r)"
  shows "\<exists>c rest t l. braceContentAndRest s = Inr (c, rest) \<and> findTypeAndLayout s = Inr (t, l) \<and>
           g = t @ ''('' @ c @ '')'' \<and> length r \<le> length rest \<and> (\<exists>n. r = drop n rest)"
proof -
  from assms obtain c rest where b: "braceContentAndRest s = Inr (c, rest)"
    by (auto simp: typeContentAndRestStartingWithLetter_def split: sum.splits)
  from assms b obtain t l where f: "findTypeAndLayout s = Inr (t, l)"
    by (auto simp: typeContentAndRestStartingWithLetter_def split: sum.splits)
  show ?thesis
  proof (cases "find (\<lambda>(i, char). IsLetter env char) (runes rest 0)")
    case None
    with assms b f have "g = t @ ''('' @ c @ '')''" "r = drop (length rest) rest"
      by (simp_all add: typeContentAndRestStartingWithLetter_def)
    with b f show ?thesis by (metis length_drop diff_le_self)
  next
    case (Some ic)
    obtain i ch where ic: "ic = (i, ch)" by fastforce
    from Some ic have "(i, ch) \<in> set (runes rest 0)"
      by (auto simp: find_Some_iff in_set_conv_nth)
    from runes_index[OF this] have "i < length rest" by simp
    with assms b f Some ic have "g = t @ ''('' @ c @ '')''" "r = drop i rest"
      by (simp_all add: typeContentAndRestStartingWithLetter_def slice_def)
    with b f show ?thesis by (metis length_drop diff_le_self)
  qed
qed

lemma typeContentAndRestStartingWithLetter_length:
  assumes "typeContentAndRestStartingWithLetter env s = Inr (g, r)"
  shows "length g \<le> length s" and "length r < length s"
proof -
  from typeContentAndRestStartingWithLetter_Inr[OF assms] obtain c rest t l where
    b: "braceContentAndRest s = Inr (c, rest)" and f: "findTypeAndLayout s = Inr (t, l)"
    and g: "g = t @ ''('' @ c @ '')''" and r: "length r \<le> length rest" by blast
  from braceContentAndRest_Inr[OF b] obtain k u where
    s: "s = k @ CHR ''('' # c @ CHR '')'' # u" and rest: "rest = CHR '')'' # u"
    and k: "CHR ''('' \<notin> set k" by auto
  from findTypeAndLayout_Inr[OF f] have "HasPrefix s t" "CHR ''('' \<notin> set t"
    by (auto dest: keywords_no_open)
  then have "length t \<le> length k" unfolding s by (rule prefix_before_open)
  then show "length g \<le> length s" unfolding g s by simp
  show "length r < length s" using r unfolding s rest by simp
qed

lemma Split_length: "1 \<le> length (Split s c)"
  by (induction s) (auto split: list.splits)

lemma parseElems_length:
  "parseElems env vals i coordVals = Inr r \<Longrightarrow> length r = length coordVals"
  by (induction vals arbitrary: i coordVals) (auto split: option.splits if_splits)

lemma parseElems_Inl:
  "parseElems env vals i coordVals = Inl e \<Longrightarrow> i + length vals \<le> length coordVals \<Longrightarrow>
   \<exists>val. e = InvalidOrdinate val"
  by (induction vals arbitrary: i coordVals) (auto split: option.splits if_splits)

lemma coordsLoop_Inr:
  "coordsLoop env s l coordStrings coords = Inr r \<Longrightarrow>
   list_all (\<lambda>c. length c = Stride l) coords \<Longrightarrow>
   list_all (\<lambda>c. length c = Stride l) r \<and> length r = length coords + length coordStrings"
proof (induction coordStrings arbitrary: coords)
  case Nil
  then show ?case by simp
next
  case (Cons a coordStrings)
  from Cons.prems(1) obtain coordVals where
    p: "parseElems env (Split (TrimSpace a) (CHR '' '')) 0 (replicate (Stride l) 0) = Inr coordVals"
    and r: "coordsLoop env s l coordStrings (coords @ [coordVals]) = Inr r"
    by (auto simp: Let_def split: if_splits sum.splits)
  from parseElems_length[OF p] have "length coordVals = Stride l" by simp
  with Cons.prems(2) have "list_all (\<lambda>c. length c = Stride l) (coords @ [coordVals])" by simp
  from Cons.IH[OF r this] show ?case by simp
qed

lemma coordsLoop_Inl:
  "coordsLoop env s l coordStrings coords = Inl e \<Longrightarrow>
   e = DimensionMismatch (Stride l) s \<or> (\<exists>val. e = InvalidOrdinate val)"
proof (induction coordStrings arbitrary: coords)
  case Nil
  then show ?case by simp
next
  case (Cons a coordStrings)
  show ?case
  proof (cases "length (Split (TrimSpace a) (CHR '' '')) = Stride l")
    case False
    with Cons.prems show ?thesis by (simp add: Let_def)
  next
    case True
    show ?thesis
    proof (cases "parseElems env (Split (TrimSpace a) (CHR '' '')) 0 (replicate (Stride l) 0)")
      case (Inl e')
      with Cons.prems True have "e = e'" by (simp add: Let_def)
      with parseElems_Inl[OF Inl] True show ?thesis by simp
    next
      case (Inr v)
      with Cons.prems True have "coordsLoop env s l coordStrings (coords @ [v]) = Inl e"
        by (simp add: Let_def)
      from Cons.IH[OF this] show ?thesis .
    qed
  qed
qed

lemma coordsFromBraceContent_Inr:
  "coordsFromBraceContent env s l = Inr r \<Longrightarrow>
   list_all (\<lambda>c. length c = Stride l) r \<and> r \<noteq> []"
  using coordsLoop_Inr[of env s l "Split s (CHR '','')" "[]" r] Split_length[of s "CHR '',''"]
  by (auto simp: coordsFromBraceContent_def)

lemma coordsFromBraceContent_Inl:
  "coordsFromBraceContent env s l = Inl e \<Longrightarrow>
   e = DimensionMismatch (Stride l) s \<or> (\<exists>val. e = InvalidOrdinate val)"
  unfolding coordsFromBraceContent_def by (rule coordsLoop_Inl)

fun returned :: "error \<Rightarrow> bool" where
  "returned (UnknownType s) = True"
| "returned (UnsupportedType s) = False"
| "returned (MalformedBraces s) = True"
| "returned (DimensionMismatch n s) = True"
| "returned (InvalidOrdinate s) = True"
| "returned (Panic p) = False"

lemma readCoordsDim1_Inl: "readCoordsDim1 env l wkt = Inl e \<Longrightarrow> returned e"
  by (auto simp: readCoordsDim1_def split: if_splits sum.splits
      dest!: braceContentAndRestStartingWithOpeningBrace_Inl coordsFromBraceContent_Inl)

lemma readCoordsDim1_Inr:
  assumes "readCoordsDim1 env l wkt = Inr (coords, rest)"
  shows "list_all (\<lambda>c. length c = Stride l) coords" and "rest \<noteq> [] \<Longrightarrow> length rest < length wkt"
proof -
  show "list_all (\<lambda>c. length c = Stride l) coords"
    using assms by (auto simp: readCoordsDim1_def split: if_splits sum.splits
        dest!: coordsFromBraceContent_Inr)
  show "length rest < length wkt" if "rest \<noteq> []"
    using assms that by (auto simp: readCoordsDim1_def split: if_splits sum.splits
        dest!: braceContentAndRestStartingWithOpeningBrace_length)
qed

function readCoordsDim2_loop ::
  "('f::zero) stdlib \<Rightarrow> Layout \<Rightarrow> string \<Rightarrow> 'f Coord list list \<Rightarrow> error + 'f Coord list list" where
  "readCoordsDim2_loop env l contentDim2 coordsDim2 =
     (case readCoordsDim1 env l contentDim2 of
        Inl e \<Rightarrow> Inl e
      | Inr (coordsDim1, restDim1) \<Rightarrow>
          if restDim1 = [] then Inr (coordsDim2 @ [coordsDim1])
          else readCoordsDim2_loop env l restDim1 (coordsDim2 @ [coordsDim1]))"
  by pat_completeness auto
termination
  by (relation "measure (\<lambda>(env, l, contentDim2, coordsDim2). length contentDim2)")
     (auto dest: readCoordsDim1_Inr(2))

declare readCoordsDim2_loop.simps [simp del]

definition readCoordsDim2 ::
  "('f::zero) stdlib \<Rightarrow> Layout \<Rightarrow> string \<Rightarrow> error + ('f Coord list list \<times> string)" where
  "readCoordsDim2 env l wkt =
     (if HasSuffix wkt tEmpty then Inr ([], [])
      else (case braceContentAndRestStartingWithOpeningBrace wkt of
              Inl e \<Rightarrow> Inl e
            | Inr (contentDim2, restDim2) \<Rightarrow>
                (case readCoordsDim2_loop env l contentDim2 [] of
                   Inl e \<Rightarrow> Inl e
                 | Inr coordsDim2 \<Rightarrow> Inr (coordsDim2, restDim2))))"

lemma readCoordsDim2_rest:
  "readCoordsDim2 env l wkt = Inr (coords, rest) \<Longrightarrow> rest \<noteq> [] \<Longrightarrow> length rest < length wkt"
  by (auto simp: readCoordsDim2_def split: if_splits sum.splits
      dest!: braceContentAndRestStartingWithOpeningBrace_length)

function readCoordsDim3_loop ::
  "('f::zero) stdlib \<Rightarrow> Layout \<Rightarrow> string \<Rightarrow> 'f Coord list list list
     \<Rightarrow> error + 'f Coord list list list" where
  "readCoordsDim3_loop env l contentDim3 coordsDim3 =
     (case readCoordsDim2 env l contentDim3 of
        Inl e \<Rightarrow> Inl e
      | Inr (coordsDim2, restDim2) \<Rightarrow>
          if restDim2 = [] then Inr (coordsDim3 @ [coordsDim2])
          else readCoordsDim3_loop env l restDim2 (coordsDim3 @ [coordsDim2]))"
  by pat_completeness auto
termination
  by (relation "measure (\<lambda>(env, l, contentDim3, coordsDim3). length contentDim3)")
     (auto dest: readCoordsDim2_rest)

declare readCoordsDim3_loop.simps [simp del]

definition readCoordsDim3 ::
  "('f::zero) stdlib \<Rightarrow> Layout \<Rightarrow> string \<Rightarrow> error + ('f Coord list list list \<times> string)" where
  "readCoordsDim3 env l wkt =
     (if HasSuffix wkt tEmpty then Inr ([], [])
      else (case braceContentAndRestStartingWithOpeningBrace wkt of
              Inl e \<Rightarrow> Inl e
            | Inr (contentDim3, restDim3) \<Rightarrow>
                (case readCoordsDim3_loop env l contentDim3 [] of
                   Inl e \<Rightarrow> Inl e
                 | Inr coordsDim3 \<Rightarrow> Inr (coordsDim3, restDim3))))"

function decode :: "('f::zero) stdlib \<Rightarrow> string \<Rightarrow> error + 'f T"
  and createGeomCollectionForWkt :: "('f::zero) stdlib \<Rightarrow> string \<Rightarrow> error + 'f T"
  and createGeomCollectionForWkt_loop ::
    "('f::zero) stdlib \<Rightarrow> string \<Rightarrow> 'f T list \<Rightarrow> error + 'f T list"
where
  "decode env wkt =
     (case findTypeAndLayout wkt of
        Inl e \<Rightarrow> Inl e
      | Inr (t, l) \<Rightarrow>
          if t = tPoint then
            (case readCoordsDim1 env l wkt of
               Inl e \<Rightarrow> Inl e
             | Inr (coords, _) \<Rightarrow>
                 if length coords > 0 then Point_MustSetCoords l (coords ! 0)
                 else Inr (NewPointEmpty l))
          else if t = tLineString then
            (case readCoordsDim1 env l wkt of
               Inl e \<Rightarrow> Inl e
             | Inr (coords, _) \<Rightarrow>
                 if length coords = 0 then Inr (NewLineString l)
                 else if Equal l (coords ! 0) (coords ! (length coords - 1))
                 then LinearRing_MustSetCoords l coords
                 else LineString_MustSetCoords l coords)
          else if t = tPolygon then
            (case readCoordsDim2 env l wkt of
               Inl e \<Rightarrow> Inl e
             | Inr (coords, _) \<Rightarrow>
                 if length coords > 0 then Polygon_MustSetCoords l coords
                 else Inr (NewPolygon l))
          else if t = tMultiPoint then
            (case readCoordsDim1 env l wkt of
               Inl e \<Rightarrow> Inl e
             | Inr (coords, _) \<Rightarrow>
                 if length coords > 0 then MultiPoint_MustSetCoords l coords
                 else Inr (NewMultiPoint l))
          else if t = tMultiLineString then
            (case readCoordsDim2 env l wkt of
               Inl e \<Rightarrow> Inl e
             | Inr (coords, _) \<Rightarrow>
                 if length coords > 0 then MultiLineString_MustSetCoords l coords
                 else Inr (NewMultiLineString l))
          else if t = tMultiPolygon then
            (case readCoordsDim3 env l wkt of
               Inl e \<Rightarrow> Inl e
             | Inr (coords, _) \<Rightarrow>
                 if length coords > 0 then MultiPolygon_MustSetCoords l coords
                 else Inr (NewMultiPolygon l))
          else if t = tGeometryCollection then createGeomCollectionForWkt env wkt
          else Inl (UnsupportedType t))"
| "createGeomCollectionForWkt env wkt =
     (if HasSuffix wkt tEmpty then Inr (GeometryCollection [])
      else (case braceContentAndRest wkt of
              Inl e \<Rightarrow> Inl e
            | Inr (content, _) \<Rightarrow>
                (case createGeomCollectionForWkt_loop env content [] of
                   Inl e \<Rightarrow> Inl e
                 | Inr gc \<Rightarrow> Inr (GeometryCollection gc))))"
| "createGeomCollectionForWkt_loop env content gc =
     (case typeContentAndRestStartingWithLetter env content of
        Inl e \<Rightarrow> Inl e
      | Inr (geomContent, rest) \<Rightarrow>
          (case decode env geomContent of
             Inl e \<Rightarrow> Inl e
           | Inr g \<Rightarrow>
               if rest = [] then Inr (MustPush gc g)
               else createGeomCollectionForWkt_loop env rest (MustPush gc g)))"
  by pat_completeness auto
termination
proof (relation "measure (case_sum (\<lambda>(env, wkt). 2 * length wkt + 2)
         (case_sum (\<lambda>(env, wkt). 2 * length wkt + 1)
                   (\<lambda>(env, content, gc). 2 * length content + 3)))", goal_cases)
  case 1
  then show ?case by simp
next
  case 2
  then show ?case by simp
next
  case (3 env wkt x2 content r)
  from braceContentAndRest_Inr[of wkt content r] 3 show ?case by auto
next
  case (4 env content gc x2 geomContent rest)
  from typeContentAndRestStartingWithLetter_length(1)[of env content geomContent rest] 4
  show ?case by simp
next
  case (5 env content gc x2 geomContent rest g)
  from typeContentAndRestStartingWithLetter_length(2)[of env content geomContent rest] 5
  show ?case by simp
qed


declare decode.simps [simp del]
declare createGeomCollectionForWkt.simps [simp del]
declare createGeomCollectionForWkt_loop.simps [simp del]

subsection \<open>A library instance for evaluating examples\<close>

text \<open>
  \<open>digitsFloat\<close> agrees with \<^verbatim>\<open>strconv.ParseFloat(val, 64)\<close> on the non-empty
  strings of decimal digits that denote an integer below \<open>2^53\<close> (such an integer is a
  float64), and on the strings with a character that no float syntax has; the examples
  use no other token. The examples are ASCII, so the letter table is never asked.
\<close>

fun decimal :: "string \<Rightarrow> nat \<Rightarrow> nat option" where
  "decimal [] acc = Some acc"
| "decimal (c # cs) acc =
     (if 48 \<le> (of_char c :: nat) \<and> (of_char c :: nat) \<le> 57
      then decimal cs (10 * acc + (of_char c - 48)) else None)"

definition digitsFloat :: "string \<Rightarrow> int option" where
  "digitsFloat s = (if s = [] then None else map_option int (decimal s 0))"

definition exampleLib :: "int stdlib" where
  "exampleLib = \<lparr>ParseFloat = digitsFloat, LetterTable = (\<lambda>r. False)\<rparr>"

section \<open>Properties of the decoder\<close>

subsection \<open>Type and layout\<close>

lemma HasPrefix_Nil [simp]: "HasPrefix s []"
  by (simp add: HasPrefix_def)

lemma HasPrefix_Nil_Cons [simp]: "\<not> HasPrefix [] (p # ps)"
  by (simp add: HasPrefix_def)

lemma HasPrefix_Cons [simp]: "HasPrefix (x # xs) (p # ps) = (x = p \<and> HasPrefix xs ps)"
  by (auto simp: HasPrefix_def)

lemma HasPrefix_append_same: "HasPrefix (k @ r) (k @ m) = HasPrefix r m"
  by (simp add: HasPrefix_def)

lemma findTypeAndLayout_keyword:
  assumes "kw \<in> set typeKeywords"
  shows "findTypeAndLayout (kw @ rest) =
         Inr (kw, if HasPrefix rest tZm then XYZM else if HasPrefix rest tM then XYM
                  else if HasPrefix rest tZ then XYZ else XY)"
proof -
  from assms have "kw = tPoint \<or> kw = tLineString \<or> kw = tPolygon \<or> kw = tMultiPoint \<or>
      kw = tMultiLineString \<or> kw = tMultiPolygon \<or> kw = tGeometryCollection"
    by (simp add: typeKeywords_def)
  then show ?thesis unfolding findTypeAndLayout_def
    by (elim disjE; simp add: keyword_defs)
qed

lemma findTypeAndLayout_unknown:
  "\<forall>kw\<in>set typeKeywords. \<not> HasPrefix s kw \<Longrightarrow> findTypeAndLayout s = Inl (UnknownType s)"
  by (simp add: findTypeAndLayout_def typeKeywords_def)

text \<open>
  Claim C7. For an input that begins with one of the seven keywords, the type is that
  keyword and the layout is read from the text directly behind it, "ZM" before "M" before
  "Z": XYZM, XYM, XYZ, and XY when none of them follows. An input that begins with no
  keyword fails with \<open>UnknownType\<close>, which carries the input.
\<close>

theorem findTypeAndLayout_resolves:
  "(kw \<in> set typeKeywords \<longrightarrow>
      findTypeAndLayout (kw @ rest) =
        Inr (kw, if HasPrefix rest ''ZM'' then XYZM else if HasPrefix rest ''M'' then XYM
                 else if HasPrefix rest ''Z'' then XYZ else XY)) \<and>
   ((\<forall>kw\<in>set typeKeywords. \<not> HasPrefix s kw) \<longrightarrow> findTypeAndLayout s = Inl (UnknownType s))"
  using findTypeAndLayout_keyword[of kw rest] findTypeAndLayout_unknown[of s]
  unfolding tZm_def tM_def tZ_def by blast

theorem findTypeAndLayout_resolves_witness:
  "findTypeAndLayout ''POLYGONZM((0 0 0 0))'' = Inr (''POLYGON'', XYZM) \<and>
   findTypeAndLayout ''FOO(1 2)'' = Inl (UnknownType ''FOO(1 2)'')"
  using findTypeAndLayout_resolves[of "''POLYGON''" "''ZM((0 0 0 0))''" "''FOO(1 2)''"]
  by (simp add: typeKeywords_def keyword_defs)


end
